theory Spec2Isabelle
  imports
    Main
    "HOL-Library.Sublist"
    "HOL-Library.Char_ord"
    "HOL-Library.List_Lexorder"
    "HOL-Library.Multiset"
begin

section \<open>Strings\<close>

text \<open>
  A Python \<open>str\<close> is modelled as a \<open>string\<close>, one \<open>char\<close> per code point; the model
  therefore covers text whose code points are below 256. The operations below are the
  \<open>str\<close> methods the scripts call, written after their CPython behaviour.
\<close>

definition LF :: char where
  "LF = CHR 0x0A"

definition CR :: char where
  "CR = CHR 0x0D"

definition DQUOTE :: char where
  "DQUOTE = CHR 0x22"

definition SQUOTE :: char where
  "SQUOTE = CHR 0x27"

text \<open>
  \<open>str.isspace\<close> on one character, for code points below 256: TAB, LF, VT, FF, CR,
  the separators 0x1C to 0x1F, SPACE, NEL (0x85) and NBSP (0xA0).
\<close>

definition isspace :: "char \<Rightarrow> bool" where
  "isspace c =
     (let n = (of_char c :: nat)
      in (9 \<le> n \<and> n \<le> 13) \<or> (28 \<le> n \<and> n \<le> 32) \<or> n = 133 \<or> n = 160)"

text \<open>\<open>sub in s\<close>: the substring test, scanning the start positions from the left.\<close>

fun contains :: "string \<Rightarrow> string \<Rightarrow> bool" where
  "contains sub [] = (sub = [])"
| "contains sub (c # cs) = (prefix sub (c # cs) \<or> contains sub cs)"

text \<open>\<open>s.find(sub)\<close>: the lowest index at which \<open>sub\<close> starts, or \<open>-1\<close>.\<close>

fun find_from :: "nat \<Rightarrow> string \<Rightarrow> string \<Rightarrow> int" where
  "find_from k sub [] = (if sub = [] then int k else - 1)"
| "find_from k sub (c # cs) =
     (if prefix sub (c # cs) then int k else find_from (Suc k) sub cs)"

definition find :: "string \<Rightarrow> string \<Rightarrow> int" where
  "find s sub = find_from 0 sub s"

text \<open>
  \<open>s[:k]\<close> for an integer \<open>k\<close>: a negative bound counts from the end, and bounds
  outside the string are clipped.
\<close>

definition slice_to :: "string \<Rightarrow> int \<Rightarrow> string" where
  "slice_to s k = (if k < 0 then take (nat (int (length s) + k)) s else take (nat k) s)"

text \<open>
  \<open>s.split(sep)\<close> for a one-character separator, reading from the left; \<open>cur\<close> is the
  piece being read. The result is never the empty list.
\<close>

fun split_from :: "char \<Rightarrow> string \<Rightarrow> string \<Rightarrow> string list" where
  "split_from sep cur [] = [cur]"
| "split_from sep cur (c # cs) =
     (if c = sep then cur # split_from sep [] cs else split_from sep (cur @ [c]) cs)"

definition split_chr :: "char \<Rightarrow> string \<Rightarrow> string list" where
  "split_chr sep s = split_from sep [] s"

text \<open>
  \<open>s.split()\<close> without a separator: the maximal runs of non-whitespace characters,
  in order; \<open>cur\<close> is the run being read.
\<close>

fun split_ws_from :: "string \<Rightarrow> string \<Rightarrow> string list" where
  "split_ws_from cur [] = (if cur = [] then [] else [cur])"
| "split_ws_from cur (c # cs) =
     (if isspace c then (if cur = [] then split_ws_from [] cs else cur # split_ws_from [] cs)
      else split_ws_from (cur @ [c]) cs)"

definition split_ws :: "string \<Rightarrow> string list" where
  "split_ws s = split_ws_from [] s"

text \<open>\<open>sep.join(xs)\<close>.\<close>

fun join :: "string \<Rightarrow> string list \<Rightarrow> string" where
  "join sep [] = []"
| "join sep [x] = x"
| "join sep (x # y # ys) = x @ sep @ join sep (y # ys)"

definition startswith :: "string \<Rightarrow> string \<Rightarrow> bool" where
  "startswith s p = prefix p s"

definition removeprefix :: "string \<Rightarrow> string \<Rightarrow> string" where
  "removeprefix s p = (if prefix p s then drop (length p) s else s)"

definition removesuffix :: "string \<Rightarrow> string \<Rightarrow> string" where
  "removesuffix s p =
     (if p \<noteq> [] \<and> suffix p s then take (length s - length p) s else s)"

text \<open>
  \<open>str.replace\<close> for one character by another, and the case methods. The case
  methods are modelled for ASCII text only: on a string of ASCII characters they are
  Python's \<open>str.lower\<close> and \<open>str.title\<close>. Outside ASCII Python also maps accented
  letters, which the definitions below leave as they are, so every statement about them
  is made for ASCII input, as \<open>str_isascii\<close> (\<open>str.isascii\<close>) says.
\<close>

definition str_isascii :: "string \<Rightarrow> bool" where
  "str_isascii s = list_all (\<lambda>c. (of_char c :: nat) < 128) s"

definition replace_chr :: "char \<Rightarrow> char \<Rightarrow> string \<Rightarrow> string" where
  "replace_chr old new s = map (\<lambda>c. if c = old then new else c) s"

definition isupper_chr :: "char \<Rightarrow> bool" where
  "isupper_chr c = (65 \<le> (of_char c :: nat) \<and> (of_char c :: nat) \<le> 90)"

definition islower_chr :: "char \<Rightarrow> bool" where
  "islower_chr c = (97 \<le> (of_char c :: nat) \<and> (of_char c :: nat) \<le> 122)"

definition iscased :: "char \<Rightarrow> bool" where
  "iscased c = (isupper_chr c \<or> islower_chr c)"

definition to_upper :: "char \<Rightarrow> char" where
  "to_upper c = (if islower_chr c then char_of ((of_char c :: nat) - 32) else c)"

definition to_lower :: "char \<Rightarrow> char" where
  "to_lower c = (if isupper_chr c then char_of ((of_char c :: nat) + 32) else c)"

definition str_lower :: "string \<Rightarrow> string" where
  "str_lower s = map to_lower s"

text \<open>
  \<open>str.title\<close>: a character that follows a cased character is lowered, any other is
  raised; \<open>prev\<close> says whether the previous character was cased.
\<close>

fun str_title_from :: "bool \<Rightarrow> string \<Rightarrow> string" where
  "str_title_from prev [] = []"
| "str_title_from prev (c # cs) =
     (if prev then to_lower c else to_upper c) # str_title_from (iscased c) cs"

definition str_title :: "string \<Rightarrow> string" where
  "str_title s = str_title_from False s"

section \<open>Paths and the file system\<close>

text \<open>
  \<open>PurePath.stem\<close> of a final path component: the name without its last suffix, where
  a suffix starts at the last dot unless that dot is the first or the last character.
\<close>

fun rfind_chr :: "char \<Rightarrow> string \<Rightarrow> nat option" where
  "rfind_chr ch [] = None"
| "rfind_chr ch (c # cs) =
     (case rfind_chr ch cs of
        Some i \<Rightarrow> Some (Suc i)
      | None \<Rightarrow> (if c = ch then Some 0 else None))"

definition stem :: "string \<Rightarrow> string" where
  "stem name =
     (case rfind_chr (CHR ''.'') name of
        None \<Rightarrow> name
      | Some i \<Rightarrow> (if 0 < i \<and> i + 1 < length name then take i name else name))"

datatype error = FileNotFoundError | IndexError | UnboundLocalError

text \<open>
  The part of the file system the scripts touch: \<open>listing\<close> gives, for a directory
  path, the names of its entries in the order \<open>iterdir\<close> yields them; \<open>contents\<close>
  gives the text of a file; \<open>written\<close> logs the paths of the \<open>write_text\<close> calls,
  oldest first.
\<close>

record world =
  listing :: "string \<rightharpoonup> string list"
  contents :: "string \<rightharpoonup> string"
  written :: "string list"

text \<open>
  \<open>sorted_files\<close> (the same function in \<open>gen_nav.py\<close> and \<open>inject_titles.py\<close>). A
  path yielded by \<open>iterdir\<close> is represented by its final component, its parent being
  the directory listed; paths compare component by component, so within one directory
  their order is the order of the names.
\<close>

definition sorted_files :: "world \<Rightarrow> string \<Rightarrow> error + string list" where
  "sorted_files w section_slug =
     (case listing w (''docs/'' @ section_slug) of
        None \<Rightarrow> Inl FileNotFoundError
      | Some entries \<Rightarrow> Inr (sort (filter (\<lambda>x. ''index'' \<noteq> stem x) entries)))"

text \<open>
  \<open>Path.read_text\<close>: the text of the file with universal newlines, that is with
  every \<open>CR LF\<close> and every other \<open>CR\<close> read as \<open>LF\<close>.
\<close>

fun universal_newlines :: "string \<Rightarrow> string" where
  "universal_newlines [] = []"
| "universal_newlines [c] = (if c = CR then [LF] else [c])"
| "universal_newlines (c # d # cs) =
     (if c = CR \<and> d = LF then LF # universal_newlines cs
      else if c = CR then LF # universal_newlines (d # cs)
      else c # universal_newlines (d # cs))"

definition read_text :: "world \<Rightarrow> string \<Rightarrow> error + string" where
  "read_text w path =
     (case contents w path of
        None \<Rightarrow> Inl FileNotFoundError
      | Some raw \<Rightarrow> Inr (universal_newlines raw))"

text \<open>
  \<open>Path.write_text\<close> on a platform whose line separator is \<open>LF\<close>: the file holds the
  text as given, and the call is logged.
\<close>

definition write_text :: "world \<Rightarrow> string \<Rightarrow> string \<Rightarrow> world" where
  "write_text w path s = w\<lparr>contents := (contents w)(path \<mapsto> s), written := written w @ [path]\<rparr>"

section \<open>Title Injector (\<open>inject_titles.py\<close>)\<close>

text \<open>
  The value taken from a title line:
  \<open>' '.join(line.split()[1:]).removeprefix('"').removesuffix('"')\<close>.
\<close>

definition title_value :: "string \<Rightarrow> string" where
  "title_value line =
     removesuffix (removeprefix (join '' '' (drop 1 (split_ws line))) [DQUOTE]) [DQUOTE]"

text \<open>
  The scanning loop of \<open>file_update\<close> over \<open>enumerate(lines)\<close>. The state is the pair
  of the local variables \<open>i\<close> and \<open>title\<close>, each \<open>None\<close> while it is unbound. The
  title test comes first in the loop body, the terminator test with its \<open>break\<close> second.
\<close>

fun scan_loop :: "(nat \<times> string) list \<Rightarrow> nat option \<times> string option \<Rightarrow> nat option \<times> string option" where
  "scan_loop [] st = st"
| "scan_loop ((i, line) # rest) st =
     (let title = (if contains ''title: '' line then Some (title_value line) else snd st)
      in if contains ''---'' line \<and> 1 \<le> i then (Some i, title)
         else scan_loop rest (Some i, title))"

text \<open>
  \<open>file_update\<close>. The result is the exception raised, if any, and the file system
  after the call. In \<open>lines[i + 2] == f"# {title}"\<close> the left operand is evaluated
  first, so a missing line is reported before an unbound \<open>title\<close>.
\<close>

definition file_update :: "world \<Rightarrow> string \<Rightarrow> error option \<times> world" where
  "file_update w filename =
     (case read_text w filename of
        Inl e \<Rightarrow> (Some e, w)
      | Inr original \<Rightarrow>
          (let lines = split_chr LF original;
               st = scan_loop (enumerate 0 lines) (None, None)
           in case fst st of
                None \<Rightarrow> (Some UnboundLocalError, w)
              | Some i \<Rightarrow>
                  if length lines \<le> i + 2 then (Some IndexError, w)
                  else
                    (case snd st of
                       None \<Rightarrow> (Some UnboundLocalError, w)
                     | Some title \<Rightarrow>
                         if lines ! (i + 2) = ''# '' @ title then (None, w)
                         else if startswith (lines ! (i + 2)) ''# '' then
                           (None, write_text w filename
                              (join [LF] (lines[i + 2 := ''# '' @ title])))
                         else
                           (None, write_text w filename
                              (join [LF] (take (i + 1) lines @ [[], ''# '' @ title, []]
                                          @ drop (i + 1) lines))))))"

section \<open>Navigation Builder (\<open>gen_nav.py\<close>)\<close>

definition NAV_KEY :: string where
  "NAV_KEY = ''# NAV''"

text \<open>
  \<open>section_nav\<close>: the loop appends one leaf line per file to the two opening lines.
  The \<open>print\<close> of the lines is not modelled.
\<close>

definition section_nav :: "world \<Rightarrow> string \<Rightarrow> error + string list" where
  "section_nav w section =
     (let section_slug = str_lower section;
          lines = [''  - '' @ str_title section @ '':'', ''    - '' @ section_slug @ ''/index.md'']
      in case sorted_files w section_slug of
           Inl e \<Rightarrow> Inl e
         | Inr fs \<Rightarrow>
             Inr (fold (\<lambda>filename lines.
                          lines @ [''    - '' @ [SQUOTE]
                                   @ str_title (replace_chr (CHR ''_'') (CHR '' '')
                                              (replace_chr (CHR ''-'') (CHR '' '') (stem filename)))
                                   @ [SQUOTE] @ '': '' @ section_slug @ ''/'' @ stem filename])
                    fs lines))"

text \<open>The loop over the sections, extending \<open>nav_lines\<close>.\<close>

fun extend_nav :: "world \<Rightarrow> string list \<Rightarrow> string list \<Rightarrow> error + string list" where
  "extend_nav w [] nav_lines = Inr nav_lines"
| "extend_nav w (section # rest) nav_lines =
     (case section_nav w section of
        Inl e \<Rightarrow> Inl e
      | Inr ls \<Rightarrow> extend_nav w rest (nav_lines @ ls))"

definition nav_lines :: "world \<Rightarrow> error + string list" where
  "nav_lines w = extend_nav w [''blog'', ''guides'', ''resources'', ''setups''] [NAV_KEY, ''nav:'']"

text \<open>
  The rest of the script: back up \<open>mkdocs.yml\<close>, then write it again with the
  navigation block spliced in at the position \<open>find\<close> returns.
\<close>

definition gen_nav :: "world \<Rightarrow> error option \<times> world" where
  "gen_nav w =
     (case nav_lines w of
        Inl e \<Rightarrow> (Some e, w)
      | Inr nl \<Rightarrow>
          (case read_text w ''mkdocs.yml'' of
             Inl e \<Rightarrow> (Some e, w)
           | Inr original \<Rightarrow>
               (let w1 = write_text w ''.bak.mkdocs.yml'' original;
                    start_nav_index = find original NAV_KEY;
                    updated = slice_to original start_nav_index @ join [LF] nl
                in (None, write_text w1 ''mkdocs.yml'' updated))))"

section \<open>Notions for the scanning loop\<close>

text \<open>
  Notions used to state the properties of the scanning loop: a title line, the
  terminator test at an index, and one reading step of the loop on \<open>title\<close>.
\<close>

definition is_title_line :: "string \<Rightarrow> bool" where
  "is_title_line line = contains ''title: '' line"

definition is_terminator :: "nat \<Rightarrow> string \<Rightarrow> bool" where
  "is_terminator i line = (contains ''---'' line \<and> 1 \<le> i)"

definition read_title :: "string \<Rightarrow> string option \<Rightarrow> string option" where
  "read_title line t = (if is_title_line line then Some (title_value line) else t)"

section \<open>Notions for the navigation block\<close>

text \<open>
  The display title of a stem and the leaf line of a file, as the loop of
  \<open>section_nav\<close> builds them.
\<close>

definition display_title :: "string \<Rightarrow> string" where
  "display_title s =
     str_title (replace_chr (CHR ''_'') (CHR '' '') (replace_chr (CHR ''-'') (CHR '' '') s))"

definition nav_leaf :: "string \<Rightarrow> string \<Rightarrow> string" where
  "nav_leaf slug filename =
     ''    - '' @ [SQUOTE] @ display_title (stem filename) @ [SQUOTE] @ '': '' @ slug @ ''/''
       @ stem filename"

section \<open>Example inputs\<close>

definition blog_world :: world where
  "blog_world =
     \<lparr>listing = [''docs/blog'' \<mapsto> [''c.md'', ''a.md'', ''index.md'', ''b.md'']],
      contents = Map.empty, written = []\<rparr>"

definition file_world :: "string \<Rightarrow> world" where
  "file_world raw = \<lparr>listing = Map.empty, contents = [''docs/blog/a.md'' \<mapsto> raw], written = []\<rparr>"

definition doc_no_title :: string where
  "doc_no_title = join [LF] [''---'', ''author: me'', ''---'', [], ''Body text'']"

definition doc_no_terminator :: string where
  "doc_no_terminator = join [LF] [''---'', ''title: Hello'', [], ''Body text'']"

definition doc_short :: string where
  "doc_short = join [LF] [''---'', ''title: Hello'', ''---'', []]"

definition doc_two_titles :: string where
  "doc_two_titles =
     join [LF] [''---'', ''title: First'', ''subtitle: Second'', ''---'', [], ''# Old'', ''Body text'']"

definition doc_paragraph :: string where
  "doc_paragraph =
     join [LF] [''---'', ''title: '' @ [DQUOTE] @ ''Hello: World'' @ [DQUOTE], ''---'',
                ''First paragraph.'', ''Second line.'', ''Third.'']"

definition nav_world :: world where
  "nav_world =
     \<lparr>listing = [''docs/blog'' \<mapsto> [''my-first_post.md'', ''index.md'', ''a.md''],
                 ''docs/guides'' \<mapsto> [''index.md''],
                 ''docs/resources'' \<mapsto> [],
                 ''docs/setups'' \<mapsto> [''vim.md'']],
      contents = [''mkdocs.yml'' \<mapsto> ''site_name: demo''],
      written = []\<rparr>"

definition nav_world_block :: "string list" where
  "nav_world_block =
     [''# NAV'', ''nav:'',
      ''  - Blog:'', ''    - blog/index.md'',
      ''    - '' @ [SQUOTE] @ ''A'' @ [SQUOTE] @ '': blog/a'',
      ''    - '' @ [SQUOTE] @ ''My First Post'' @ [SQUOTE] @ '': blog/my-first_post'',
      ''  - Guides:'', ''    - guides/index.md'',
      ''  - Resources:'', ''    - resources/index.md'',
      ''  - Setups:'', ''    - setups/index.md'',
      ''    - '' @ [SQUOTE] @ ''Vim'' @ [SQUOTE] @ '': setups/vim'']"

section \<open>Properties of the Section Lister\<close>

lemma sorted_files_Inr:
  assumes "listing w (''docs/'' @ slug) = Some entries"
  shows "sorted_files w slug = Inr (sort (filter (\<lambda>x. ''index'' \<noteq> stem x) entries))"
  using assms by (simp add: sorted_files_def)

text \<open>
  Claim C6. For a section directory that exists, \<open>sorted_files\<close> returns exactly the
  entries of the directory whose stem is not \<open>index\<close> (each as often as it is listed),
  in ascending lexicographic order of their names; the result is empty when no entry
  qualifies, and no returned entry has the stem \<open>index\<close>.
\<close>

theorem sorted_files_spec:
  assumes "listing w (''docs/'' @ slug) = Some entries"
  shows "\<exists>fs. sorted_files w slug = Inr fs
           \<and> mset fs = filter_mset (\<lambda>x. stem x \<noteq> ''index'') (mset entries)
           \<and> sorted fs
           \<and> ((\<forall>x \<in> set entries. stem x = ''index'') \<longrightarrow> fs = [])
           \<and> (\<forall>x \<in> set fs. stem x \<noteq> ''index'')"
proof -
  let ?fs = "sort (filter (\<lambda>x. ''index'' \<noteq> stem x) entries)"
  have run: "sorted_files w slug = Inr ?fs"
    using assms by (rule sorted_files_Inr)
  have same: "(\<lambda>x. ''index'' \<noteq> stem x) = (\<lambda>x. stem x \<noteq> ''index'')"
    by auto
  have elems: "mset ?fs = filter_mset (\<lambda>x. stem x \<noteq> ''index'') (mset entries)"
    by (simp add: same)
  have order: "sorted ?fs"
    by simp
  have none: "(\<forall>x \<in> set entries. stem x = ''index'') \<longrightarrow> ?fs = []"
  proof
    assume "\<forall>x \<in> set entries. stem x = ''index''"
    then have "filter (\<lambda>x. ''index'' \<noteq> stem x) entries = []"
      by (simp add: filter_empty_conv)
    then show "?fs = []" by simp
  qed
  have excl: "\<forall>x \<in> set ?fs. stem x \<noteq> ''index''"
    by auto
  from run elems order none excl show ?thesis by blast
qed

theorem sorted_files_spec_witness:
  "listing blog_world (''docs/'' @ ''blog'') = Some [''c.md'', ''a.md'', ''index.md'', ''b.md'']
   \<and> sorted_files blog_world ''blog'' = Inr [''a.md'', ''b.md'', ''c.md'']
   \<and> (\<exists>fs. sorted_files blog_world ''blog'' = Inr fs
           \<and> mset fs = filter_mset (\<lambda>x. stem x \<noteq> ''index'') (mset [''c.md'', ''a.md'', ''index.md'', ''b.md''])
           \<and> sorted fs
           \<and> ((\<forall>x \<in> set [''c.md'', ''a.md'', ''index.md'', ''b.md'']. stem x = ''index'') \<longrightarrow> fs = [])
           \<and> (\<forall>x \<in> set fs. stem x \<noteq> ''index''))"
proof -
  have h: "listing blog_world (''docs/'' @ ''blog'') = Some [''c.md'', ''a.md'', ''index.md'', ''b.md'']"
    by (simp add: blog_world_def)
  have r: "sorted_files blog_world ''blog'' = Inr [''a.md'', ''b.md'', ''c.md'']"
    by (simp add: sorted_files_def blog_world_def stem_def less_eq_char_def)
  from h r sorted_files_spec [OF h] show ?thesis by blast
qed

section \<open>Splitting and joining\<close>

lemma split_from_nonempty: "split_from sep cur s \<noteq> []"
  by (induction s arbitrary: cur) auto

lemma split_chr_nonempty: "split_chr sep s \<noteq> []"
  by (simp add: split_chr_def split_from_nonempty)

lemma split_from_no_sep:
  "l \<in> set (split_from sep cur s) \<Longrightarrow> sep \<notin> set cur \<Longrightarrow> sep \<notin> set l"
proof (induction s arbitrary: cur)
  case Nil
  then show ?case by simp
next
  case (Cons c cs)
  show ?case
  proof (cases "c = sep")
    case True
    with Cons.prems have "l = cur \<or> l \<in> set (split_from sep [] cs)" by simp
    then show ?thesis using Cons.prems(2) Cons.IH [of "[]"] by auto
  next
    case False
    with Cons.prems have "l \<in> set (split_from sep (cur @ [c]) cs)" by simp
    moreover have "sep \<notin> set (cur @ [c])" using False Cons.prems(2) by simp
    ultimately show ?thesis by (rule Cons.IH)
  qed
qed

lemma split_chr_no_sep: "l \<in> set (split_chr sep s) \<Longrightarrow> sep \<notin> set l"
  using split_from_no_sep [of l sep "[]" s] by (simp add: split_chr_def)

lemma join_Cons: "ys \<noteq> [] \<Longrightarrow> join sep (x # ys) = x @ sep @ join sep ys"
  by (cases ys) auto

lemma join_split_from: "join [sep] (split_from sep cur s) = cur @ s"
proof (induction s arbitrary: cur)
  case Nil
  then show ?case by simp
next
  case (Cons c cs)
  show ?case
  proof (cases "c = sep")
    case True
    have "join [sep] (cur # split_from sep [] cs) = cur @ [sep] @ join [sep] (split_from sep [] cs)"
      using split_from_nonempty by (rule join_Cons)
    then show ?thesis using True Cons.IH [of "[]"] by simp
  next
    case False
    then show ?thesis using Cons.IH [of "cur @ [c]"] by simp
  qed
qed

lemma join_split_chr: "join [sep] (split_chr sep s) = s"
  by (simp add: split_chr_def join_split_from)

lemma split_from_append_line:
  "sep \<notin> set l \<Longrightarrow> split_from sep cur (l @ sep # s) = (cur @ l) # split_from sep [] s"
  by (induction l arbitrary: cur) auto

lemma split_from_line: "sep \<notin> set l \<Longrightarrow> split_from sep cur l = [cur @ l]"
  by (induction l arbitrary: cur) auto

lemma split_chr_append_line:
  "sep \<notin> set l \<Longrightarrow> split_chr sep (l @ sep # s) = l # split_chr sep s"
  using split_from_append_line [of sep l "[]" s] by (simp add: split_chr_def)

lemma split_chr_line: "sep \<notin> set l \<Longrightarrow> split_chr sep l = [l]"
  using split_from_line [of sep l "[]"] by (simp add: split_chr_def)

lemma split_chr_join:
  "ls \<noteq> [] \<Longrightarrow> \<forall>l \<in> set ls. sep \<notin> set l \<Longrightarrow> split_chr sep (join [sep] ls) = ls"
proof (induction ls)
  case Nil
  then show ?case by simp
next
  case (Cons x ys)
  show ?case
  proof (cases "ys = []")
    case True
    with Cons.prems show ?thesis by (simp add: split_chr_line)
  next
    case False
    with Cons have "split_chr sep (join [sep] ys) = ys" by simp
    moreover have "join [sep] (x # ys) = x @ sep # join [sep] ys"
      using False by (simp add: join_Cons)
    ultimately show ?thesis using Cons.prems by (simp add: split_chr_append_line)
  qed
qed

lemma set_join: "set (join sep xs) \<subseteq> set sep \<union> \<Union> (set ` set xs)"
  by (induction sep xs rule: join.induct) auto

lemma universal_newlines_no_CR: "CR \<notin> set (universal_newlines s)"
  by (induction s rule: universal_newlines.induct) (auto simp: CR_def LF_def)

lemma universal_newlines_id: "CR \<notin> set s \<Longrightarrow> universal_newlines s = s"
  by (induction s rule: universal_newlines.induct) auto

lemma set_removeprefix: "set (removeprefix s p) \<subseteq> set s"
  by (auto simp: removeprefix_def dest: in_set_dropD)

lemma set_removesuffix: "set (removesuffix s p) \<subseteq> set s"
  by (auto simp: removesuffix_def dest: in_set_takeD)

lemma split_ws_from_tokens:
  "w \<in> set (split_ws_from cur s) \<Longrightarrow> \<forall>c \<in> set cur. \<not> isspace c \<Longrightarrow> \<forall>c \<in> set w. \<not> isspace c"
proof (induction s arbitrary: cur)
  case Nil
  then show ?case by (cases "cur = []") auto
next
  case (Cons c cs)
  show ?case
  proof (cases "isspace c")
    case sp: True
    show ?thesis
    proof (cases "cur = []")
      case True
      with sp Cons.prems have "w \<in> set (split_ws_from [] cs)" by simp
      then show ?thesis using Cons.IH [of "[]"] by simp
    next
      case False
      with sp Cons.prems have "w = cur \<or> w \<in> set (split_ws_from [] cs)" by simp
      then show ?thesis using Cons.IH [of "[]"] Cons.prems(2) by auto
    qed
  next
    case False
    with Cons.prems have "w \<in> set (split_ws_from (cur @ [c]) cs)" by simp
    moreover have "\<forall>d \<in> set (cur @ [c]). \<not> isspace d" using False Cons.prems(2) by simp
    ultimately show ?thesis using Cons.IH [of "cur @ [c]"] by blast
  qed
qed

lemma split_ws_tokens: "w \<in> set (split_ws s) \<Longrightarrow> c \<in> set w \<Longrightarrow> \<not> isspace c"
  using split_ws_from_tokens [of w "[]" s] by (simp add: split_ws_def)

lemma title_value_chars:
  assumes "c \<in> set (title_value line)"
  shows "c = CHR '' '' \<or> \<not> isspace c"
proof -
  from assms have "c \<in> set (removeprefix (join '' '' (drop 1 (split_ws line))) [DQUOTE])"
    unfolding title_value_def using set_removesuffix by blast
  then have "c \<in> set (join '' '' (drop 1 (split_ws line)))"
    using set_removeprefix by blast
  then have "c \<in> set '' '' \<union> \<Union> (set ` set (drop 1 (split_ws line)))"
    using set_join by blast
  then have "c = CHR '' '' \<or> (\<exists>w \<in> set (split_ws line). c \<in> set w)"
    by (auto dest: in_set_dropD)
  then show ?thesis
    using split_ws_tokens by blast
qed

lemma title_value_no_LF: "LF \<notin> set (title_value line)"
proof
  assume "LF \<in> set (title_value line)"
  then have "LF = CHR '' '' \<or> \<not> isspace LF" by (rule title_value_chars)
  then show False by (simp add: LF_def isspace_def)
qed

lemma title_value_no_CR: "CR \<notin> set (title_value line)"
proof
  assume "CR \<in> set (title_value line)"
  then have "CR = CHR '' '' \<or> \<not> isspace CR" by (rule title_value_chars)
  then show False by (simp add: CR_def isspace_def)
qed

section \<open>The scanning loop\<close>

lemma scan_loop_Cons:
  "scan_loop ((i, line) # rest) st =
     (if is_terminator i line then (Some i, read_title line (snd st))
      else scan_loop rest (Some i, read_title line (snd st)))"
  by (simp add: is_terminator_def read_title_def is_title_line_def Let_def)

lemma scan_loop_hit:
  assumes "j < length ls" and "is_terminator (k + j) (ls ! j)"
    and "\<forall>m<j. \<not> is_terminator (k + m) (ls ! m)"
  shows "scan_loop (enumerate k ls) st = (Some (k + j), fold read_title (take (Suc j) ls) (snd st))"
  using assms
proof (induction ls arbitrary: k j st)
  case Nil
  then show ?case by simp
next
  case (Cons l rest)
  show ?case
  proof (cases j)
    case 0
    with Cons.prems show ?thesis by (simp add: scan_loop_Cons del: scan_loop.simps(2))
  next
    case (Suc j')
    have "0 < j" using Suc by simp
    with Cons.prems(3) have "\<not> is_terminator (k + 0) ((l # rest) ! 0)" by blast
    then have first: "\<not> is_terminator k l" by simp
    have a: "j' < length rest" using Cons.prems(1) Suc by simp
    have b: "is_terminator (Suc k + j') (rest ! j')" using Cons.prems(2) Suc by simp
    have c: "\<forall>m<j'. \<not> is_terminator (Suc k + m) (rest ! m)"
    proof (intro allI impI)
      fix m assume "m < j'"
      then have "Suc m < j" using Suc by simp
      with Cons.prems(3) have "\<not> is_terminator (k + Suc m) ((l # rest) ! Suc m)" by blast
      then show "\<not> is_terminator (Suc k + m) (rest ! m)" by simp
    qed
    have "scan_loop (enumerate (Suc k) rest) (Some k, read_title l (snd st))
            = (Some (Suc k + j'), fold read_title (take (Suc j') rest) (read_title l (snd st)))"
      using Cons.IH [OF a b c, of "(Some k, read_title l (snd st))"] by simp
    then show ?thesis
      using first Suc by (simp add: scan_loop_Cons del: scan_loop.simps(2))
  qed
qed

lemma scan_loop_miss:
  assumes "ls \<noteq> []" and "\<forall>m<length ls. \<not> is_terminator (k + m) (ls ! m)"
  shows "scan_loop (enumerate k ls) st = (Some (k + length ls - 1), fold read_title ls (snd st))"
  using assms
proof (induction ls arbitrary: k st)
  case Nil
  then show ?case by simp
next
  case (Cons l rest)
  have "0 < length (l # rest)" by simp
  with Cons.prems(2) have "\<not> is_terminator (k + 0) ((l # rest) ! 0)" by blast
  then have first: "\<not> is_terminator k l" by simp
  show ?case
  proof (cases "rest = []")
    case True
    with first show ?thesis by (simp add: scan_loop_Cons del: scan_loop.simps(2))
  next
    case False
    have c: "\<forall>m<length rest. \<not> is_terminator (Suc k + m) (rest ! m)"
    proof (intro allI impI)
      fix m assume "m < length rest"
      then have "Suc m < length (l # rest)" by simp
      with Cons.prems(2) have "\<not> is_terminator (k + Suc m) ((l # rest) ! Suc m)" by blast
      then show "\<not> is_terminator (Suc k + m) (rest ! m)" by simp
    qed
    have "scan_loop (enumerate (Suc k) rest) (Some k, read_title l (snd st))
            = (Some (Suc k + length rest - 1), fold read_title rest (read_title l (snd st)))"
      using Cons.IH [OF False c, of "(Some k, read_title l (snd st))"] by simp
    moreover have "Suc k + length rest - 1 = k + length (l # rest) - 1" by simp
    ultimately show ?thesis
      using first by (simp add: scan_loop_Cons del: scan_loop.simps(2))
  qed
qed

lemma fold_read_title:
  "fold read_title ls t =
     (if filter is_title_line ls = [] then t
      else Some (title_value (last (filter is_title_line ls))))"
proof (induction ls arbitrary: t)
  case Nil
  then show ?case by simp
next
  case (Cons l rest)
  show ?case
  proof (cases "is_title_line l")
    case True
    then show ?thesis using Cons [of "Some (title_value l)"]
      by (simp add: read_title_def)
  next
    case False
    then show ?thesis using Cons [of t]
      by (simp add: read_title_def)
  qed
qed

lemma first_such:
  assumes "\<exists>m<n. P (m::nat)"
  shows "\<exists>j<n. P j \<and> (\<forall>m<j. \<not> P m)"
proof -
  from assms have "\<exists>m. m < n \<and> P m" by blast
  then have "\<exists>j. (j < n \<and> P j) \<and> (\<forall>m<j. \<not> (m < n \<and> P m))"
    by (subst (asm) exists_least_iff)
  then obtain j where j: "j < n" "P j" "\<forall>m<j. \<not> (m < n \<and> P m)" by blast
  have "\<forall>m<j. \<not> P m"
  proof (intro allI impI)
    fix m assume "m < j"
    with j(1,3) show "\<not> P m" by (meson less_trans)
  qed
  with j(1,2) show ?thesis by blast
qed

section \<open>The outcome of \<open>file_update\<close>\<close>

lemma file_update_read:
  assumes "contents w p = Some raw"
  shows "read_text w p = Inr (universal_newlines raw)"
  using assms by (simp add: read_text_def)

lemma file_update_scan:
  assumes "contents w p = Some raw"
    and "scan_loop (enumerate 0 (split_chr LF (universal_newlines raw))) (None, None) = (Some i, t)"
  shows "file_update w p =
     (let lines = split_chr LF (universal_newlines raw)
      in if length lines \<le> i + 2 then (Some IndexError, w)
      else case t of
             None \<Rightarrow> (Some UnboundLocalError, w)
           | Some t \<Rightarrow>
               if lines ! (i + 2) = ''# '' @ t then (None, w)
               else if prefix ''# '' (lines ! (i + 2)) then
                 (None, write_text w p (join [LF] (lines[i + 2 := ''# '' @ t])))
               else
                 (None, write_text w p
                    (join [LF] (take (i + 1) lines @ [[], ''# '' @ t, []] @ drop (i + 1) lines))))"
  unfolding file_update_def file_update_read [OF assms(1)]
  by (simp only: assms(2) Let_def sum.case fst_conv snd_conv option.case startswith_def)

lemma file_update_hit:
  assumes raw: "contents w p = Some raw"
    and lines: "lines = split_chr LF (universal_newlines raw)"
    and j: "j < length lines" "is_terminator j (lines ! j)"
    and first: "\<forall>m<j. \<not> is_terminator m (lines ! m)"
  shows "file_update w p =
     (if length lines \<le> j + 2 then (Some IndexError, w)
      else case fold read_title (take (Suc j) lines) None of
             None \<Rightarrow> (Some UnboundLocalError, w)
           | Some t \<Rightarrow>
               if lines ! (j + 2) = ''# '' @ t then (None, w)
               else if prefix ''# '' (lines ! (j + 2)) then
                 (None, write_text w p (join [LF] (lines[j + 2 := ''# '' @ t])))
               else
                 (None, write_text w p
                    (join [LF] (take (j + 1) lines @ [[], ''# '' @ t, []] @ drop (j + 1) lines))))"
proof -
  have "scan_loop (enumerate 0 lines) (None, None)
          = (Some j, fold read_title (take (Suc j) lines) None)"
    using scan_loop_hit [of j lines 0 "(None, None)"] j first by simp
  then have "scan_loop (enumerate 0 (split_chr LF (universal_newlines raw))) (None, None)
          = (Some j, fold read_title (take (Suc j) lines) None)"
    by (simp only: lines)
  from file_update_scan [OF raw this] show ?thesis
    by (simp only: Let_def lines [symmetric])
qed

lemma file_update_miss:
  assumes raw: "contents w p = Some raw"
    and lines: "lines = split_chr LF (universal_newlines raw)"
    and none: "\<forall>m<length lines. \<not> is_terminator m (lines ! m)"
  shows "file_update w p = (Some IndexError, w)"
proof -
  have ne: "lines \<noteq> []" using lines split_chr_nonempty by simp
  have "scan_loop (enumerate 0 lines) (None, None)
          = (Some (length lines - 1), fold read_title lines None)"
    using scan_loop_miss [of lines 0 "(None, None)"] ne none by simp
  then have "scan_loop (enumerate 0 (split_chr LF (universal_newlines raw))) (None, None)
          = (Some (length lines - 1), fold read_title lines None)"
    by (simp only: lines)
  from file_update_scan [OF raw this] have "file_update w p =
     (if length lines \<le> length lines - 1 + 2 then (Some IndexError, w)
      else case fold read_title lines None of
             None \<Rightarrow> (Some UnboundLocalError, w)
           | Some t \<Rightarrow>
               if lines ! (length lines - 1 + 2) = ''# '' @ t then (None, w)
               else if prefix ''# '' (lines ! (length lines - 1 + 2)) then
                 (None, write_text w p (join [LF] (lines[length lines - 1 + 2 := ''# '' @ t])))
               else
                 (None, write_text w p
                    (join [LF] (take (length lines - 1 + 1) lines @ [[], ''# '' @ t, []]
                                @ drop (length lines - 1 + 1) lines))))"
    by (simp only: Let_def lines [symmetric])
  moreover have "length lines \<le> length lines - 1 + 2" by simp
  ultimately show ?thesis by (simp only: if_True)
qed

lemma file_update_absent:
  assumes "contents w p = None"
  shows "file_update w p = (Some FileNotFoundError, w)"
  using assms by (simp add: file_update_def read_text_def)

lemma terminator_cases:
  "(\<exists>j<length lines. is_terminator j (lines ! j) \<and> (\<forall>m<j. \<not> is_terminator m (lines ! m)))
   \<or> (\<forall>m<length lines. \<not> is_terminator m (lines ! m))"
  using first_such [of "length lines" "\<lambda>m. is_terminator m (lines ! m)"] by blast

section \<open>Failures of \<open>file_update\<close>\<close>

lemma contains_sublist: "contains sub s = sublist sub s"
  by (induction s) (simp_all add: sublist_Cons_right)

lemma contains_iff: "contains sub s \<longleftrightarrow> (\<exists>a b. s = a @ sub @ b)"
  by (simp add: contains_sublist sublist_def)

lemma is_terminator_first:
  assumes "1 \<le> j" and "contains ''---'' (lines ! j)"
    and "\<forall>m. 1 \<le> m \<and> m < j \<longrightarrow> \<not> contains ''---'' (lines ! m)"
  shows "is_terminator j (lines ! j) \<and> (\<forall>m<j. \<not> is_terminator m (lines ! m))"
  using assms by (auto simp: is_terminator_def)

lemma fold_read_title_None:
  assumes "\<forall>m<n. \<not> contains ''title: '' (lines ! m)" and "n \<le> length lines"
  shows "fold read_title (take n lines) None = None"
proof -
  have "filter is_title_line (take n lines) = []"
  proof (rule ccontr)
    assume "filter is_title_line (take n lines) \<noteq> []"
    then obtain l where l: "l \<in> set (take n lines)" "is_title_line l"
      by (auto simp: filter_empty_conv)
    then obtain m where "m < length (take n lines)" "take n lines ! m = l"
      by (auto simp: in_set_conv_nth)
    then have "m < n" "lines ! m = l" using assms(2) by auto
    with assms(1) l(2) show False by (auto simp: is_title_line_def)
  qed
  then show ?thesis by (simp add: fold_read_title)
qed

text \<open>
  Claim C3. Let the lines of a content file be given. If the scan reaches its terminator
  (the first line at an index of at least 1 that contains \<open>---\<close>) without any scanned
  line, the terminator line included, containing \<open>title: \<close>, or if no line at an
  index of at least 1 contains \<open>---\<close>, then \<open>file_update\<close> raises an exception and
  returns the file system as it was: no file is written and the log of writes is unchanged.
\<close>

theorem file_update_fails_without_title_or_terminator:
  assumes raw: "contents w p = Some raw"
    and lines: "lines = split_chr LF (universal_newlines raw)"
    and bad: "(\<exists>j. 1 \<le> j \<and> j < length lines \<and> contains ''---'' (lines ! j)
                 \<and> (\<forall>m. 1 \<le> m \<and> m < j \<longrightarrow> \<not> contains ''---'' (lines ! m))
                 \<and> (\<forall>m. m \<le> j \<longrightarrow> \<not> contains ''title: '' (lines ! m)))
              \<or> (\<forall>m. 1 \<le> m \<and> m < length lines \<longrightarrow> \<not> contains ''---'' (lines ! m))"
  shows "file_update w p = (Some IndexError, w) \<or> file_update w p = (Some UnboundLocalError, w)"
  using bad
proof
  assume "\<exists>j. 1 \<le> j \<and> j < length lines \<and> contains ''---'' (lines ! j)
                 \<and> (\<forall>m. 1 \<le> m \<and> m < j \<longrightarrow> \<not> contains ''---'' (lines ! m))
                 \<and> (\<forall>m. m \<le> j \<longrightarrow> \<not> contains ''title: '' (lines ! m))"
  then obtain j where j: "1 \<le> j" "j < length lines" "contains ''---'' (lines ! j)"
    and first: "\<forall>m. 1 \<le> m \<and> m < j \<longrightarrow> \<not> contains ''---'' (lines ! m)"
    and notitle: "\<forall>m. m \<le> j \<longrightarrow> \<not> contains ''title: '' (lines ! m)"
    by blast
  have tm: "is_terminator j (lines ! j)" "\<forall>m<j. \<not> is_terminator m (lines ! m)"
    using is_terminator_first [OF j(1) j(3) first] by simp_all
  have "\<forall>m<Suc j. \<not> contains ''title: '' (lines ! m)" using notitle by simp
  then have t: "fold read_title (take (Suc j) lines) None = None"
    using j(2) by (intro fold_read_title_None) simp_all
  show ?thesis
    using file_update_hit [OF raw lines j(2) tm] t by (simp split: if_splits)
next
  assume "\<forall>m. 1 \<le> m \<and> m < length lines \<longrightarrow> \<not> contains ''---'' (lines ! m)"
  then have "\<forall>m<length lines. \<not> is_terminator m (lines ! m)"
    by (auto simp: is_terminator_def)
  then show ?thesis using file_update_miss [OF raw lines] by simp
qed

text \<open>
  Claim C10. If the terminator is found at index \<open>j\<close> and the document has no line at
  index \<open>j + 2\<close>, then \<open>file_update\<close> raises \<open>IndexError\<close>, whether or not a title
  was read, and returns the file system as it was: nothing is inserted or written.
\<close>

theorem file_update_short_document:
  assumes raw: "contents w p = Some raw"
    and lines: "lines = split_chr LF (universal_newlines raw)"
    and j: "1 \<le> j" "j < length lines" "contains ''---'' (lines ! j)"
    and first: "\<forall>m. 1 \<le> m \<and> m < j \<longrightarrow> \<not> contains ''---'' (lines ! m)"
    and short: "length lines \<le> j + 2"
  shows "file_update w p = (Some IndexError, w)"
proof -
  have tm: "is_terminator j (lines ! j)" "\<forall>m<j. \<not> is_terminator m (lines ! m)"
    using is_terminator_first [OF j(1) j(3) first] by simp_all
  show ?thesis
    using file_update_hit [OF raw lines j(2) tm] short by simp
qed

lemma lines_doc_no_title:
  "split_chr LF (universal_newlines doc_no_title) = [''---'', ''author: me'', ''---'', [], ''Body text'']"
  by (simp add: doc_no_title_def split_chr_def LF_def CR_def)

lemma lines_doc_no_terminator:
  "split_chr LF (universal_newlines doc_no_terminator) = [''---'', ''title: Hello'', [], ''Body text'']"
  by (simp add: doc_no_terminator_def split_chr_def LF_def CR_def)

lemma lines_doc_short:
  "split_chr LF (universal_newlines doc_short) = [''---'', ''title: Hello'', ''---'', []]"
  by (simp add: doc_short_def split_chr_def LF_def CR_def)

lemma less_two: "m < (2::nat) \<longleftrightarrow> m = 0 \<or> m = 1"
  by auto

lemma le_two: "m \<le> (2::nat) \<longleftrightarrow> m = 0 \<or> m = 1 \<or> m = 2"
  by auto

theorem file_update_fails_without_title_or_terminator_witness:
  "file_update (file_world doc_no_title) ''docs/blog/a.md''
     = (Some UnboundLocalError, file_world doc_no_title)
   \<and> file_update (file_world doc_no_terminator) ''docs/blog/a.md''
     = (Some IndexError, file_world doc_no_terminator)"
proof -
  let ?l1 = "[''---'', ''author: me'', ''---'', [], ''Body text'']"
  let ?l2 = "[''---'', ''title: Hello'', [], ''Body text'']"
  have r1: "contents (file_world doc_no_title) ''docs/blog/a.md'' = Some doc_no_title"
    by (simp add: file_world_def)
  have r2: "contents (file_world doc_no_terminator) ''docs/blog/a.md'' = Some doc_no_terminator"
    by (simp add: file_world_def)
  have b1: "1 \<le> (2::nat) \<and> 2 < length ?l1 \<and> contains ''---'' (?l1 ! 2)
            \<and> (\<forall>m. 1 \<le> m \<and> m < 2 \<longrightarrow> \<not> contains ''---'' (?l1 ! m))
            \<and> (\<forall>m. m \<le> 2 \<longrightarrow> \<not> contains ''title: '' (?l1 ! m))"
    by (auto simp: less_two le_two)
  have b2: "\<forall>m. 1 \<le> m \<and> m < length ?l2 \<longrightarrow> \<not> contains ''---'' (?l2 ! m)"
    by (auto simp: less_Suc_eq)
  have c1: "file_update (file_world doc_no_title) ''docs/blog/a.md'' = (Some IndexError, file_world doc_no_title)
            \<or> file_update (file_world doc_no_title) ''docs/blog/a.md'' = (Some UnboundLocalError, file_world doc_no_title)"
    using file_update_fails_without_title_or_terminator [OF r1 lines_doc_no_title [symmetric]] b1 by blast
  have c2: "file_update (file_world doc_no_terminator) ''docs/blog/a.md'' = (Some IndexError, file_world doc_no_terminator)
            \<or> file_update (file_world doc_no_terminator) ''docs/blog/a.md'' = (Some UnboundLocalError, file_world doc_no_terminator)"
    using file_update_fails_without_title_or_terminator [OF r2 lines_doc_no_terminator [symmetric]] b2 by blast
  have e1: "file_update (file_world doc_no_title) ''docs/blog/a.md'' \<noteq> (Some IndexError, file_world doc_no_title)"
    by (simp add: file_update_def read_text_def file_world_def doc_no_title_def split_chr_def LF_def CR_def Let_def)
  have e2: "file_update (file_world doc_no_terminator) ''docs/blog/a.md'' \<noteq> (Some UnboundLocalError, file_world doc_no_terminator)"
    by (simp add: file_update_def read_text_def file_world_def doc_no_terminator_def split_chr_def LF_def CR_def Let_def)
  from c1 c2 e1 e2 show ?thesis by blast
qed

theorem file_update_short_document_witness:
  "file_update (file_world doc_short) ''docs/blog/a.md'' = (Some IndexError, file_world doc_short)"
proof -
  let ?l = "[''---'', ''title: Hello'', ''---'', []]"
  have r: "contents (file_world doc_short) ''docs/blog/a.md'' = Some doc_short"
    by (simp add: file_world_def)
  have j: "1 \<le> (2::nat)" "2 < length ?l" "contains ''---'' (?l ! 2)"
    by simp_all
  have first: "\<forall>m. 1 \<le> m \<and> m < 2 \<longrightarrow> \<not> contains ''---'' (?l ! m)"
    by (auto simp: less_two)
  have short: "length ?l \<le> 2 + 2" by simp
  show ?thesis
    using file_update_short_document [OF r lines_doc_short [symmetric] j first short] .
qed

section \<open>The terminator and the title that the scan finds\<close>

lemma scan_loop_found:
  assumes "1 \<le> j" and "j < length lines" and "contains ''---'' (lines ! j)"
    and "\<forall>m. 1 \<le> m \<and> m < j \<longrightarrow> \<not> contains ''---'' (lines ! m)"
  shows "scan_loop (enumerate 0 lines) (None, None)
           = (Some j, fold read_title (take (Suc j) lines) None)"
proof -
  have tm: "is_terminator j (lines ! j) \<and> (\<forall>m<j. \<not> is_terminator m (lines ! m))"
    using is_terminator_first [OF assms(1) assms(3) assms(4)] .
  show ?thesis
    using scan_loop_hit [of j lines 0 "(None, None)"] assms(2) tm by simp
qed

lemma fold_read_title_last:
  assumes "j < length lines" and "contains ''title: '' (lines ! j)"
  shows "fold read_title (take (Suc j) lines) t = Some (title_value (lines ! j))"
proof -
  have "take (Suc j) lines = take j lines @ [lines ! j]"
    using assms(1) by (rule take_Suc_conv_app_nth)
  then show ?thesis
    using assms(2) by (simp add: read_title_def is_title_line_def)
qed

text \<open>
  Claim C9. The scan stops at the first line at an index of at least 1 in which \<open>---\<close>
  occurs anywhere, whatever stands before and after it in the line. When that line
  also contains \<open>title: \<close>, as a title whose value contains \<open>---\<close> does, its title is
  read and the scan ends there.
\<close>

theorem scan_stops_at_first_rule:
  assumes "1 \<le> j" and "j < length lines" and "lines ! j = a @ ''---'' @ b"
    and "\<forall>m a' b'. 1 \<le> m \<and> m < j \<longrightarrow> lines ! m \<noteq> a' @ ''---'' @ b'"
  shows "fst (scan_loop (enumerate 0 lines) (None, None)) = Some j
         \<and> (contains ''title: '' (lines ! j) \<longrightarrow>
              snd (scan_loop (enumerate 0 lines) (None, None)) = Some (title_value (lines ! j)))"
proof -
  have here: "contains ''---'' (lines ! j)"
    using assms(3) contains_iff by blast
  have before: "\<forall>m. 1 \<le> m \<and> m < j \<longrightarrow> \<not> contains ''---'' (lines ! m)"
    using assms(4) contains_iff by blast
  have scan: "scan_loop (enumerate 0 lines) (None, None)
                = (Some j, fold read_title (take (Suc j) lines) None)"
    using scan_loop_found [OF assms(1) assms(2) here before] .
  show ?thesis
    using scan fold_read_title_last [OF assms(2)] by simp
qed

text \<open>
  Claim C8. When the scan ends at the terminator at index \<open>j\<close> and at least one of the
  lines up to it contains \<open>title: \<close>, the title that the scan holds, and that
  \<open>file_update\<close> compares with and writes into the heading, is the value of the last of
  those lines.
\<close>

theorem file_update_uses_last_title_line:
  assumes raw: "contents w p = Some raw"
    and lines: "lines = split_chr LF (universal_newlines raw)"
    and j: "1 \<le> j" "j < length lines" "contains ''---'' (lines ! j)"
    and first: "\<forall>m. 1 \<le> m \<and> m < j \<longrightarrow> \<not> contains ''---'' (lines ! m)"
    and titles: "titles = filter (contains ''title: '') (take (Suc j) lines)" "titles \<noteq> []"
    and t: "t = title_value (last titles)"
  shows "scan_loop (enumerate 0 lines) (None, None) = (Some j, Some t)
         \<and> file_update w p =
             (if length lines \<le> j + 2 then (Some IndexError, w)
              else if lines ! (j + 2) = ''# '' @ t then (None, w)
              else if prefix ''# '' (lines ! (j + 2)) then
                (None, write_text w p (join [LF] (lines[j + 2 := ''# '' @ t])))
              else
                (None, write_text w p
                   (join [LF] (take (j + 1) lines @ [[], ''# '' @ t, []] @ drop (j + 1) lines))))"
proof -
  have same: "is_title_line = contains ''title: ''"
    by (rule ext) (simp add: is_title_line_def)
  have ft: "fold read_title (take (Suc j) lines) None = Some t"
    using titles t by (simp add: fold_read_title same)
  have scan: "scan_loop (enumerate 0 lines) (None, None) = (Some j, Some t)"
    using scan_loop_found [OF j first] ft by simp
  have tm: "is_terminator j (lines ! j)" "\<forall>m<j. \<not> is_terminator m (lines ! m)"
    using is_terminator_first [OF j(1) j(3) first] by simp_all
  have "file_update w p =
             (if length lines \<le> j + 2 then (Some IndexError, w)
              else if lines ! (j + 2) = ''# '' @ t then (None, w)
              else if prefix ''# '' (lines ! (j + 2)) then
                (None, write_text w p (join [LF] (lines[j + 2 := ''# '' @ t])))
              else
                (None, write_text w p
                   (join [LF] (take (j + 1) lines @ [[], ''# '' @ t, []] @ drop (j + 1) lines))))"
    using file_update_hit [OF raw lines j(2) tm] by (simp only: ft option.case)
  with scan show ?thesis by simp
qed

lemma lines_doc_two_titles:
  "split_chr LF (universal_newlines doc_two_titles)
     = [''---'', ''title: First'', ''subtitle: Second'', ''---'', [], ''# Old'', ''Body text'']"
  by (simp add: doc_two_titles_def split_chr_def LF_def CR_def)

lemma title_value_examples:
  "title_value ''title: A---B'' = ''A---B''"
  "title_value ''subtitle: Second'' = ''Second''"
  by (simp_all add: title_value_def split_ws_def isspace_def removeprefix_def removesuffix_def suffix_to_prefix DQUOTE_def)

theorem scan_stops_at_first_rule_witness:
  "fst (scan_loop (enumerate 0 [''---'', ''author: me'', ''title: A---B'', ''---'', [], ''Body text''])
          (None, None)) = Some 2
   \<and> snd (scan_loop (enumerate 0 [''---'', ''author: me'', ''title: A---B'', ''---'', [], ''Body text''])
          (None, None)) = Some ''A---B''"
proof -
  let ?l = "[''---'', ''author: me'', ''title: A---B'', ''---'', [], ''Body text'']"
  have h1: "1 \<le> (2::nat)" by simp
  have h2: "2 < length ?l" by simp
  have h3: "?l ! 2 = ''title: A'' @ ''---'' @ ''B''" by simp
  have "\<not> contains ''---'' ''author: me''" by simp
  then have no: "\<forall>a' b'. ''author: me'' \<noteq> a' @ ''---'' @ b'"
    using contains_iff by blast
  have h4: "\<forall>m a' b'. 1 \<le> m \<and> m < 2 \<longrightarrow> ?l ! m \<noteq> a' @ ''---'' @ b'"
  proof (intro allI impI)
    fix m :: nat and a' b' :: string
    assume "1 \<le> m \<and> m < 2"
    then have "m = 1" by simp
    then show "?l ! m \<noteq> a' @ ''---'' @ b'" using no by simp
  qed
  have t: "contains ''title: '' (?l ! 2)" by simp
  from scan_stops_at_first_rule [OF h1 h2 h3 h4] t
  show ?thesis by (simp add: title_value_examples)
qed

theorem file_update_uses_last_title_line_witness:
  "scan_loop (enumerate 0 [''---'', ''title: First'', ''subtitle: Second'', ''---'', [], ''# Old'', ''Body text''])
      (None, None) = (Some 3, Some ''Second'')
   \<and> file_update (file_world doc_two_titles) ''docs/blog/a.md''
       = (None, write_text (file_world doc_two_titles) ''docs/blog/a.md''
            (join [LF] [''---'', ''title: First'', ''subtitle: Second'', ''---'', [], ''# Second'', ''Body text'']))"
proof -
  let ?l = "[''---'', ''title: First'', ''subtitle: Second'', ''---'', [], ''# Old'', ''Body text'']"
  have r: "contents (file_world doc_two_titles) ''docs/blog/a.md'' = Some doc_two_titles"
    by (simp add: file_world_def)
  have j: "1 \<le> (3::nat)" "3 < length ?l" "contains ''---'' (?l ! 3)"
    by simp_all
  have first: "\<forall>m. 1 \<le> m \<and> m < 3 \<longrightarrow> \<not> contains ''---'' (?l ! m)"
    by (auto simp: less_Suc_eq numeral_3_eq_3)
  have titles: "[''title: First'', ''subtitle: Second''] = filter (contains ''title: '') (take (Suc 3) ?l)"
    "[''title: First'', ''subtitle: Second''] \<noteq> []"
    by (simp_all add: numeral_3_eq_3)
  have t: "''Second'' = title_value (last [''title: First'', ''subtitle: Second''])"
    by (simp add: title_value_examples)
  from file_update_uses_last_title_line [OF r lines_doc_two_titles [symmetric] j first titles t]
  show ?thesis by simp
qed

section \<open>The text that \<open>file_update\<close> writes\<close>

lemma set_line_join: "l \<in> set xs \<Longrightarrow> set l \<subseteq> set (join sep xs)"
  by (induction sep xs rule: join.induct) auto

lemma lines_no_LF:
  assumes "lines = split_chr LF (universal_newlines raw)" and "l \<in> set lines"
  shows "LF \<notin> set l"
  using assms split_chr_no_sep by simp

lemma lines_no_CR:
  assumes "lines = split_chr LF (universal_newlines raw)" and "l \<in> set lines"
  shows "CR \<notin> set l"
proof -
  have "join [LF] lines = universal_newlines raw"
    using assms(1) by (simp add: join_split_chr)
  then have "set l \<subseteq> set (universal_newlines raw)"
    using set_line_join [OF assms(2), of "[LF]"] by simp
  then show ?thesis using universal_newlines_no_CR by blast
qed

lemma heading_no_LF: "LF \<notin> set (''# '' @ title_value line)"
  using title_value_no_LF [of line] by (simp add: LF_def)

lemma heading_no_CR: "CR \<notin> set (''# '' @ title_value line)"
  using title_value_no_CR [of line] by (simp add: CR_def)

lemma read_back:
  assumes "new \<noteq> []" and "\<forall>l \<in> set new. LF \<notin> set l \<and> CR \<notin> set l"
  shows "split_chr LF (universal_newlines (join [LF] new)) = new"
proof -
  have "set (join [LF] new) \<subseteq> set [LF] \<union> \<Union> (set ` set new)"
    by (rule set_join)
  then have "CR \<notin> set (join [LF] new)"
    using assms(2) by (auto simp: CR_def LF_def)
  then have "universal_newlines (join [LF] new) = join [LF] new"
    by (rule universal_newlines_id)
  moreover have "split_chr LF (join [LF] new) = new"
    using assms by (intro split_chr_join) simp_all
  ultimately show ?thesis by simp
qed

lemma fold_read_title_value:
  assumes "fold read_title ls None = Some t"
  shows "\<exists>line. t = title_value line"
  using assms by (auto simp: fold_read_title split: if_splits)

lemma inserted_lines:
  assumes "j < length lines"
    and "new = take (Suc j) lines @ [[], h, []] @ drop (Suc j) lines"
  shows "length new = length lines + 3"
    and "\<forall>m. m \<le> j \<longrightarrow> new ! m = lines ! m"
    and "new ! (j + 1) = []" and "new ! (j + 2) = h" and "new ! (j + 3) = []"
    and "\<forall>m. j < m \<and> m < length lines \<longrightarrow> new ! (m + 3) = lines ! m"
    and "take (Suc j) new = take (Suc j) lines"
proof -
  have len: "length (take (Suc j) lines) = Suc j" using assms(1) by simp
  show "length new = length lines + 3" using assms by simp
  show "\<forall>m. m \<le> j \<longrightarrow> new ! m = lines ! m"
    using assms(1) by (simp add: assms(2) nth_append)
  have idx: "new ! (Suc j + k) = ([[], h, []] @ drop (Suc j) lines) ! k" for k
    unfolding assms(2) by (metis len nth_append_length_plus)
  show "new ! (j + 1) = []" using idx [of 0] by simp
  show "new ! (j + 2) = h" using idx [of 1] by simp
  show "new ! (j + 3) = []" using idx [of 2] by (simp add: numeral_3_eq_3)
  show "\<forall>m. j < m \<and> m < length lines \<longrightarrow> new ! (m + 3) = lines ! m"
  proof (intro allI impI)
    fix m assume m: "j < m \<and> m < length lines"
    have "new = (take (Suc j) lines @ [[], h, []]) @ drop (Suc j) lines"
      by (simp add: assms(2))
    moreover have "length (take (Suc j) lines @ [[], h, []]) = j + 4" using len by simp
    ultimately have "new ! (m + 3) = drop (Suc j) lines ! (m + 3 - (j + 4))"
      using m by (simp add: nth_append)
    also have "\<dots> = lines ! (Suc j + (m + 3 - (j + 4)))"
      using m by (intro nth_drop) simp
    also have "Suc j + (m + 3 - (j + 4)) = m" using m by simp
    finally show "new ! (m + 3) = lines ! m" .
  qed
  show "take (Suc j) new = take (Suc j) lines"
    using len by (simp add: assms(2))
qed

text \<open>
  Claim C5. When the terminator is at index \<open>j\<close>, a title \<open>t\<close> has been read, and the
  line at index \<open>j + 2\<close> exists, differs from \<open># t\<close> and does not start with \<open># \<close>,
  \<open>file_update\<close> writes the file once, with the lines \<open>new\<close>: the lines up to the
  terminator as they were, then an empty line, \<open># t\<close> and an empty line, then every
  line that followed the terminator, unchanged, three positions further down.
\<close>

theorem file_update_inserts_heading:
  assumes raw: "contents w p = Some raw"
    and lines: "lines = split_chr LF (universal_newlines raw)"
    and j: "1 \<le> j" "j < length lines" "contains ''---'' (lines ! j)"
    and first: "\<forall>m. 1 \<le> m \<and> m < j \<longrightarrow> \<not> contains ''---'' (lines ! m)"
    and titles: "titles = filter (contains ''title: '') (take (Suc j) lines)" "titles \<noteq> []"
    and t: "t = title_value (last titles)"
    and line: "j + 2 < length lines" "lines ! (j + 2) \<noteq> ''# '' @ t"
      "\<not> prefix ''# '' (lines ! (j + 2))"
    and new: "new = take (Suc j) lines @ [[], ''# '' @ t, []] @ drop (Suc j) lines"
  shows "file_update w p = (None, write_text w p (join [LF] new))
         \<and> split_chr LF (join [LF] new) = new
         \<and> length new = length lines + 3
         \<and> (\<forall>m. m \<le> j \<longrightarrow> new ! m = lines ! m)
         \<and> new ! (j + 1) = [] \<and> new ! (j + 2) = ''# '' @ t \<and> new ! (j + 3) = []
         \<and> (\<forall>m. j < m \<and> m < length lines \<longrightarrow> new ! (m + 3) = lines ! m)"
proof -
  have same: "is_title_line = contains ''title: ''"
    by (rule ext) (simp add: is_title_line_def)
  have ft: "fold read_title (take (Suc j) lines) None = Some t"
    using titles t by (simp add: fold_read_title same)
  have tm: "is_terminator j (lines ! j)" "\<forall>m<j. \<not> is_terminator m (lines ! m)"
    using is_terminator_first [OF j(1) j(3) first] by simp_all
  have run: "file_update w p = (None, write_text w p (join [LF] new))"
    using file_update_hit [OF raw lines j(2) tm] line by (simp add: ft new)
  have clean: "\<forall>l \<in> set new. LF \<notin> set l"
  proof
    fix l assume "l \<in> set new"
    then have "l \<in> set lines \<or> l = [] \<or> l = ''# '' @ t"
      by (auto simp: new dest: in_set_takeD in_set_dropD)
    then show "LF \<notin> set l"
      using lines_no_LF [OF lines] heading_no_LF t by auto
  qed
  have "new \<noteq> []" by (simp add: new)
  then have again: "split_chr LF (join [LF] new) = new"
    using clean by (intro split_chr_join) simp_all
  from run again inserted_lines(1-6) [OF j(2) new] show ?thesis by simp
qed

lemma lines_doc_paragraph:
  "split_chr LF (universal_newlines doc_paragraph)
     = [''---'', ''title: '' @ [DQUOTE] @ ''Hello: World'' @ [DQUOTE], ''---'',
        ''First paragraph.'', ''Second line.'', ''Third.'']"
  by (simp add: doc_paragraph_def split_chr_def LF_def CR_def DQUOTE_def)

lemma title_value_quoted:
  "title_value (''title: '' @ [DQUOTE] @ ''Hello: World'' @ [DQUOTE]) = ''Hello: World''"
  by (simp add: title_value_def split_ws_def isspace_def removeprefix_def removesuffix_def
      suffix_to_prefix DQUOTE_def)

theorem file_update_inserts_heading_witness:
  "file_update (file_world doc_paragraph) ''docs/blog/a.md''
     = (None, write_text (file_world doc_paragraph) ''docs/blog/a.md''
          (join [LF] [''---'', ''title: '' @ [DQUOTE] @ ''Hello: World'' @ [DQUOTE], ''---'',
                      [], ''# Hello: World'', [],
                      ''First paragraph.'', ''Second line.'', ''Third.'']))"
proof -
  let ?l = "[''---'', ''title: '' @ [DQUOTE] @ ''Hello: World'' @ [DQUOTE], ''---'',
             ''First paragraph.'', ''Second line.'', ''Third.'']"
  let ?n = "[''---'', ''title: '' @ [DQUOTE] @ ''Hello: World'' @ [DQUOTE], ''---'',
             [], ''# Hello: World'', [], ''First paragraph.'', ''Second line.'', ''Third.'']"
  have r: "contents (file_world doc_paragraph) ''docs/blog/a.md'' = Some doc_paragraph"
    by (simp add: file_world_def)
  have j: "1 \<le> (2::nat)" "2 < length ?l" "contains ''---'' (?l ! 2)"
    by simp_all
  have first: "\<forall>m. 1 \<le> m \<and> m < 2 \<longrightarrow> \<not> contains ''---'' (?l ! m)"
    by (auto simp: less_two DQUOTE_def)
  have titles: "[''title: '' @ [DQUOTE] @ ''Hello: World'' @ [DQUOTE]]
                  = filter (contains ''title: '') (take (Suc 2) ?l)"
    "[''title: '' @ [DQUOTE] @ ''Hello: World'' @ [DQUOTE]] \<noteq> []"
    by (simp_all add: numeral_2_eq_2 DQUOTE_def)
  have t: "''Hello: World'' = title_value (last [''title: '' @ [DQUOTE] @ ''Hello: World'' @ [DQUOTE]])"
    using title_value_quoted by simp
  have line: "2 + 2 < length ?l" "?l ! (2 + 2) \<noteq> ''# '' @ ''Hello: World''"
    "\<not> prefix ''# '' (?l ! (2 + 2))"
    by simp_all
  have new: "?n = take (Suc 2) ?l @ [[], ''# '' @ ''Hello: World'', []] @ drop (Suc 2) ?l"
    by (simp add: numeral_2_eq_2)
  from file_update_inserts_heading
         [OF r lines_doc_paragraph [symmetric] j first titles t line new]
  show ?thesis by blast
qed

section \<open>A second run of \<open>file_update\<close>\<close>

lemma file_update_settled:
  assumes c: "contents w p = Some (join [LF] new)"
    and clean: "new \<noteq> []" "\<forall>l \<in> set new. LF \<notin> set l \<and> CR \<notin> set l"
    and j: "j < length new" "is_terminator j (new ! j)" "\<forall>m<j. \<not> is_terminator m (new ! m)"
    and t: "fold read_title (take (Suc j) new) None = Some t"
    and line: "j + 2 < length new" "new ! (j + 2) = ''# '' @ t"
  shows "file_update w p = (None, w)"
proof -
  have lines: "new = split_chr LF (universal_newlines (join [LF] new))"
    using read_back [OF clean] by simp
  show ?thesis
    using file_update_hit [OF c lines j] line by (simp add: t)
qed

lemma contents_write_text: "contents (write_text w p s) p = Some s"
  by (simp add: write_text_def)

lemma replaced_lines:
  assumes "j + 2 < length lines" and "new = lines[j + 2 := h]"
  shows "new ! (j + 2) = h" and "take (Suc j) new = take (Suc j) lines"
    and "\<forall>m. m \<le> j \<longrightarrow> new ! m = lines ! m" and "length new = length lines"
  using assms by simp_all

text \<open>
  Claim C2. If a run of \<open>file_update\<close> on a file returns without an exception, leaving
  the file system \<open>w'\<close>, then a second run on \<open>w'\<close> returns without an exception and
  leaves exactly \<open>w'\<close>: the contents of every file and the log of writes are the same,
  so the second run has taken the branch that writes nothing.
\<close>

theorem file_update_idempotent:
  assumes ok: "file_update w p = (None, w')"
  shows "file_update w' p = (None, w')"
proof -
  obtain raw where raw: "contents w p = Some raw"
    using ok file_update_absent [of w p] by (cases "contents w p") auto
  define lines where "lines = split_chr LF (universal_newlines raw)"
  have nomiss: "\<not> (\<forall>m<length lines. \<not> is_terminator m (lines ! m))"
    using file_update_miss [OF raw lines_def] ok by auto
  then obtain j where j: "j < length lines" "is_terminator j (lines ! j)"
      "\<forall>m<j. \<not> is_terminator m (lines ! m)"
    using terminator_cases [of lines] by blast
  note hit = file_update_hit [OF raw lines_def j]
  have long: "j + 2 < length lines"
    using hit ok by (auto split: if_splits)
  obtain t where t: "fold read_title (take (Suc j) lines) None = Some t"
    using hit ok long by (cases "fold read_title (take (Suc j) lines) None") auto
  obtain src where src: "t = title_value src"
    using fold_read_title_value [OF t] by blast
  have hLF: "LF \<notin> set (''# '' @ t)" using heading_no_LF [of src] src by simp
  have hCR: "CR \<notin> set (''# '' @ t)" using heading_no_CR [of src] src by simp
  have lLF: "\<forall>l \<in> set lines. LF \<notin> set l" using lines_no_LF [OF lines_def] by blast
  have lCR: "\<forall>l \<in> set lines. CR \<notin> set l" using lines_no_CR [OF lines_def] by blast
  consider (pass) "lines ! (j + 2) = ''# '' @ t"
    | (replace) "lines ! (j + 2) \<noteq> ''# '' @ t" "prefix ''# '' (lines ! (j + 2))"
    | (insert) "lines ! (j + 2) \<noteq> ''# '' @ t" "\<not> prefix ''# '' (lines ! (j + 2))"
    by blast
  then show ?thesis
  proof cases
    case pass
    then have "file_update w p = (None, w)" using hit long by (simp add: t)
    with ok show ?thesis by simp
  next
    case replace
    define new where "new = lines[j + 2 := ''# '' @ t]"
    have w': "w' = write_text w p (join [LF] new)"
      using hit ok long replace by (simp add: t new_def)
    have c: "contents w' p = Some (join [LF] new)"
      by (simp add: w' contents_write_text)
    note rl = replaced_lines [OF long new_def]
    have ne: "new \<noteq> []" using j(1) rl(4) by auto
    have clean: "\<forall>l \<in> set new. LF \<notin> set l \<and> CR \<notin> set l"
    proof
      fix l assume "l \<in> set new"
      then have "l \<in> set lines \<or> l = ''# '' @ t"
        unfolding new_def using set_update_subset_insert [of lines "j + 2" "''# '' @ t"] by auto
      then show "LF \<notin> set l \<and> CR \<notin> set l" using lLF lCR hLF hCR by blast
    qed
    have j': "j < length new" "is_terminator j (new ! j)" "\<forall>m<j. \<not> is_terminator m (new ! m)"
      using j rl(3,4) by simp_all
    have t': "fold read_title (take (Suc j) new) None = Some t"
      using t rl(2) by simp
    have line: "j + 2 < length new" "new ! (j + 2) = ''# '' @ t"
      using long rl(1,4) by simp_all
    show ?thesis
      using file_update_settled [OF c ne clean j' t' line] .
  next
    case insert
    define new where "new = take (Suc j) lines @ [[], ''# '' @ t, []] @ drop (Suc j) lines"
    have w': "w' = write_text w p (join [LF] new)"
      using hit ok long insert by (simp add: t new_def)
    have c: "contents w' p = Some (join [LF] new)"
      by (simp add: w' contents_write_text)
    note il = inserted_lines [OF j(1) new_def]
    have ne: "new \<noteq> []" by (simp add: new_def)
    have clean: "\<forall>l \<in> set new. LF \<notin> set l \<and> CR \<notin> set l"
    proof
      fix l assume "l \<in> set new"
      then have "l \<in> set lines \<or> l = [] \<or> l = ''# '' @ t"
        by (auto simp: new_def dest: in_set_takeD in_set_dropD)
      then show "LF \<notin> set l \<and> CR \<notin> set l" using lLF lCR hLF hCR by auto
    qed
    have j': "j < length new" "is_terminator j (new ! j)" "\<forall>m<j. \<not> is_terminator m (new ! m)"
      using j il(1,2) by simp_all
    have t': "fold read_title (take (Suc j) new) None = Some t"
      using t il(7) by simp
    have line: "j + 2 < length new" "new ! (j + 2) = ''# '' @ t"
      using long il(1,4) by simp_all
    show ?thesis
      using file_update_settled [OF c ne clean j' t' line] .
  qed
qed

lemma run_doc_paragraph:
  "file_update (file_world doc_paragraph) ''docs/blog/a.md''
     = (None, write_text (file_world doc_paragraph) ''docs/blog/a.md''
          (join [LF] [''---'', ''title: '' @ [DQUOTE] @ ''Hello: World'' @ [DQUOTE], ''---'',
                      [], ''# Hello: World'', [],
                      ''First paragraph.'', ''Second line.'', ''Third.'']))"
  by (simp add: file_update_def read_text_def file_world_def doc_paragraph_def split_chr_def
      title_value_def split_ws_def isspace_def removeprefix_def removesuffix_def suffix_to_prefix
      startswith_def LF_def CR_def DQUOTE_def Let_def)

lemma run_doc_two_titles:
  "file_update (file_world doc_two_titles) ''docs/blog/a.md''
     = (None, write_text (file_world doc_two_titles) ''docs/blog/a.md''
          (join [LF] [''---'', ''title: First'', ''subtitle: Second'', ''---'', [],
                      ''# Second'', ''Body text'']))"
  by (simp add: file_update_def read_text_def file_world_def doc_two_titles_def split_chr_def
      title_value_def split_ws_def isspace_def removeprefix_def removesuffix_def suffix_to_prefix
      startswith_def LF_def CR_def DQUOTE_def Let_def)

theorem file_update_idempotent_witness:
  "file_update (file_world doc_paragraph) ''docs/blog/a.md''
     = (None, write_text (file_world doc_paragraph) ''docs/blog/a.md''
          (join [LF] [''---'', ''title: '' @ [DQUOTE] @ ''Hello: World'' @ [DQUOTE], ''---'',
                      [], ''# Hello: World'', [],
                      ''First paragraph.'', ''Second line.'', ''Third.'']))
   \<and> file_update
        (write_text (file_world doc_paragraph) ''docs/blog/a.md''
          (join [LF] [''---'', ''title: '' @ [DQUOTE] @ ''Hello: World'' @ [DQUOTE], ''---'',
                      [], ''# Hello: World'', [],
                      ''First paragraph.'', ''Second line.'', ''Third.''])) ''docs/blog/a.md''
     = (None, write_text (file_world doc_paragraph) ''docs/blog/a.md''
          (join [LF] [''---'', ''title: '' @ [DQUOTE] @ ''Hello: World'' @ [DQUOTE], ''---'',
                      [], ''# Hello: World'', [],
                      ''First paragraph.'', ''Second line.'', ''Third.'']))
   \<and> file_update
        (write_text (file_world doc_two_titles) ''docs/blog/a.md''
          (join [LF] [''---'', ''title: First'', ''subtitle: Second'', ''---'', [],
                      ''# Second'', ''Body text''])) ''docs/blog/a.md''
     = (None, write_text (file_world doc_two_titles) ''docs/blog/a.md''
          (join [LF] [''---'', ''title: First'', ''subtitle: Second'', ''---'', [],
                      ''# Second'', ''Body text'']))"
  using run_doc_paragraph file_update_idempotent [OF run_doc_paragraph]
    file_update_idempotent [OF run_doc_two_titles]
  by simp

section \<open>The value of a title line\<close>

lemma split_ws_from_skip:
  "\<forall>c \<in> set g. isspace c \<Longrightarrow> split_ws_from [] (g @ s) = split_ws_from [] s"
  by (induction g) simp_all

lemma split_ws_from_token:
  "\<forall>c \<in> set tok. \<not> isspace c \<Longrightarrow> split_ws_from cur (tok @ s) = split_ws_from (cur @ tok) s"
  by (induction tok arbitrary: cur) simp_all

lemma split_ws_first:
  assumes "\<forall>c \<in> set g. isspace c" and "tok \<noteq> []" and "\<forall>c \<in> set tok. \<not> isspace c"
    and "isspace c"
  shows "split_ws (g @ tok @ c # rest) = tok # split_ws rest"
proof -
  have "split_ws (g @ tok @ c # rest) = split_ws_from [] (tok @ c # rest)"
    using assms(1) by (simp add: split_ws_def split_ws_from_skip)
  also have "\<dots> = split_ws_from tok (c # rest)"
    using assms(3) split_ws_from_token [of tok "[]" "c # rest"] by simp
  also have "\<dots> = tok # split_ws rest"
    using assms(2,4) by (simp add: split_ws_def)
  finally show ?thesis .
qed

lemma split_ws_single:
  assumes "tok \<noteq> []" and "\<forall>c \<in> set tok. \<not> isspace c"
  shows "split_ws tok = [tok]"
  using assms split_ws_from_token [of tok "[]" "[]"] by (simp add: split_ws_def)

lemma isspace_space: "isspace (CHR '' '')"
  by (simp add: isspace_def)

lemma split_ws_join:
  assumes "\<forall>w \<in> set toks. w \<noteq> [] \<and> (\<forall>c \<in> set w. \<not> isspace c)"
  shows "split_ws (join '' '' toks) = toks"
  using assms
proof (induction toks)
  case Nil
  then show ?case by (simp add: split_ws_def)
next
  case (Cons x ys)
  show ?case
  proof (cases "ys = []")
    case True
    with Cons.prems show ?thesis by (simp add: split_ws_single)
  next
    case False
    have "join '' '' (x # ys) = [] @ x @ CHR '' '' # join '' '' ys"
      using False by (simp add: join_Cons)
    moreover have "split_ws ([] @ x @ CHR '' '' # join '' '' ys) = x # split_ws (join '' '' ys)"
      using Cons.prems isspace_space by (intro split_ws_first) simp_all
    ultimately show ?thesis using Cons by simp
  qed
qed

lemma concat_split_ws_from:
  "concat (split_ws_from cur s) = cur @ filter (\<lambda>c. \<not> isspace c) s"
  by (induction s arbitrary: cur) simp_all

lemma concat_split_ws: "concat (split_ws s) = filter (\<lambda>c. \<not> isspace c) s"
  by (simp add: split_ws_def concat_split_ws_from)

lemma removeprefix_one: "\<exists>a. v = a @ removeprefix v [q] \<and> (a = [] \<or> a = [q])"
proof (cases "prefix [q] v")
  case True
  then obtain r where "v = [q] @ r" by (auto simp: prefix_def)
  then show ?thesis by (simp add: removeprefix_def)
next
  case False
  then show ?thesis by (simp add: removeprefix_def)
qed

lemma removesuffix_one: "\<exists>b. v = removesuffix v [q] @ b \<and> (b = [] \<or> b = [q])"
proof (cases "suffix [q] v")
  case True
  then obtain r where "v = r @ [q]" by (auto simp: suffix_def)
  then show ?thesis by (simp add: removesuffix_def)
next
  case False
  then show ?thesis by (simp add: removesuffix_def)
qed

lemma strip_quotes:
  "\<exists>a b. v = a @ removesuffix (removeprefix v [q]) [q] @ b
          \<and> (a = [] \<or> a = [q]) \<and> (b = [] \<or> b = [q])"
proof -
  obtain a where a: "v = a @ removeprefix v [q]" "a = [] \<or> a = [q]"
    using removeprefix_one by blast
  obtain b where b: "removeprefix v [q] = removesuffix (removeprefix v [q]) [q] @ b"
      "b = [] \<or> b = [q]"
    using removesuffix_one by blast
  from a(1) b(1) have "v = a @ removesuffix (removeprefix v [q]) [q] @ b" by simp
  with a(2) b(2) show ?thesis by blast
qed

text \<open>
  Claim C4, as amended. Let a line consist of optional leading whitespace, a first token
  \<open>tok\<close>, one whitespace character and a remainder \<open>rest\<close>. The value taken from the
  line is \<open>rest\<close> split at whitespace and joined again with single spaces, with one
  double quote removed from its very start if there is one and one from its very end if
  there is one. Splitting and joining keeps every character of \<open>rest\<close> that is not
  whitespace, in order, so colons and inner quotes stay; and it gives back \<open>rest\<close>
  itself whenever \<open>rest\<close> is a sequence of tokens separated by single spaces.
\<close>

theorem title_value_normalises_rest:
  assumes "\<forall>c \<in> set g. isspace c" and "tok \<noteq> []" and "\<forall>c \<in> set tok. \<not> isspace c"
    and "isspace c"
  shows "title_value (g @ tok @ c # rest)
           = removesuffix (removeprefix (join '' '' (split_ws rest)) [DQUOTE]) [DQUOTE]
         \<and> (\<exists>a b. join '' '' (split_ws rest) = a @ title_value (g @ tok @ c # rest) @ b
                \<and> (a = [] \<or> a = [DQUOTE]) \<and> (b = [] \<or> b = [DQUOTE]))
         \<and> concat (split_ws rest) = filter (\<lambda>c. \<not> isspace c) rest
         \<and> ((\<exists>toks. rest = join '' '' toks
                      \<and> (\<forall>w \<in> set toks. w \<noteq> [] \<and> (\<forall>c \<in> set w. \<not> isspace c)))
              \<longrightarrow> join '' '' (split_ws rest) = rest)"
proof -
  have v: "title_value (g @ tok @ c # rest)
           = removesuffix (removeprefix (join '' '' (split_ws rest)) [DQUOTE]) [DQUOTE]"
    using split_ws_first [OF assms] by (simp add: title_value_def)
  have q: "\<exists>a b. join '' '' (split_ws rest) = a @ title_value (g @ tok @ c # rest) @ b
                \<and> (a = [] \<or> a = [DQUOTE]) \<and> (b = [] \<or> b = [DQUOTE])"
    unfolding v by (rule strip_quotes)
  have n: "(\<exists>toks. rest = join '' '' toks
                      \<and> (\<forall>w \<in> set toks. w \<noteq> [] \<and> (\<forall>c \<in> set w. \<not> isspace c)))
              \<longrightarrow> join '' '' (split_ws rest) = rest"
    using split_ws_join by auto
  from v q n concat_split_ws [of rest] show ?thesis by blast
qed

text \<open>
  The value is not always a part of the line: two spaces between the words of a title
  come back as one, so the claim as first stated fails on such a line.
\<close>

theorem title_value_not_substring_counterexample:
  "contains ''title: '' ''title: A  B''
   \<and> title_value ''title: A  B'' = ''A B''
   \<and> title_value ''title: A  B'' \<noteq> ''A  B''
   \<and> \<not> contains (title_value ''title: A  B'') ''title: A  B''"
  by (simp add: title_value_def split_ws_def isspace_def removeprefix_def removesuffix_def
      suffix_to_prefix DQUOTE_def)

theorem title_value_normalises_rest_witness:
  "title_value (''title:'' @ CHR '' '' # [DQUOTE] @ ''Hello: World'' @ [DQUOTE]) = ''Hello: World''
   \<and> concat (split_ws ([DQUOTE] @ ''Hello: World'' @ [DQUOTE]))
       = [DQUOTE] @ ''Hello:World'' @ [DQUOTE]
   \<and> join '' '' (split_ws ([DQUOTE] @ ''Hello: World'' @ [DQUOTE]))
       = [DQUOTE] @ ''Hello: World'' @ [DQUOTE]"
proof -
  let ?rest = "[DQUOTE] @ ''Hello: World'' @ [DQUOTE]"
  have h1: "\<forall>c \<in> set []. isspace c" by simp
  have h2: "''title:'' \<noteq> []" by simp
  have h3: "\<forall>c \<in> set ''title:''. \<not> isspace c" by (simp add: isspace_def)
  have h4: "isspace (CHR '' '')" by (simp add: isspace_def)
  have toks: "\<exists>toks. ?rest = join '' '' toks
                \<and> (\<forall>w \<in> set toks. w \<noteq> [] \<and> (\<forall>c \<in> set w. \<not> isspace c))"
    by (rule exI [of _ "[[DQUOTE] @ ''Hello:'', ''World'' @ [DQUOTE]]"])
       (simp add: isspace_def DQUOTE_def)
  have e: "removesuffix (removeprefix ?rest [DQUOTE]) [DQUOTE] = ''Hello: World''"
    by (simp add: removeprefix_def removesuffix_def suffix_to_prefix DQUOTE_def)
  have f: "filter (\<lambda>c. \<not> isspace c) ?rest = [DQUOTE] @ ''Hello:World'' @ [DQUOTE]"
    by (simp add: isspace_def DQUOTE_def)
  from title_value_normalises_rest [OF h1 h2 h3 h4, of ?rest] toks e f
  show ?thesis by simp
qed

section \<open>The navigation block\<close>

lemma fold_append_map: "fold (\<lambda>x acc. acc @ [f x]) xs acc = acc @ map f xs"
  by (induction xs arbitrary: acc) simp_all

lemma section_nav_lines:
  assumes "sorted_files w (str_lower s) = Inr fs"
  shows "section_nav w s =
           Inr ([''  - '' @ str_title s @ '':'', ''    - '' @ str_lower s @ ''/index.md'']
                @ map (nav_leaf (str_lower s)) fs)"
proof -
  have leaf: "(\<lambda>filename. ''    - '' @ [SQUOTE]
                 @ str_title (replace_chr (CHR ''_'') (CHR '' '')
                               (replace_chr (CHR ''-'') (CHR '' '') (stem filename)))
                 @ [SQUOTE] @ '': '' @ str_lower s @ ''/'' @ stem filename)
              = nav_leaf (str_lower s)"
    by (rule ext) (simp add: nav_leaf_def display_title_def)
  show ?thesis
    unfolding section_nav_def Let_def assms sum.case fold_append_map leaf ..
qed

lemma case_names:
  "str_lower ''blog'' = ''blog''" "str_title ''blog'' = ''Blog''"
  "str_lower ''guides'' = ''guides''" "str_title ''guides'' = ''Guides''"
  "str_lower ''resources'' = ''resources''" "str_title ''resources'' = ''Resources''"
  "str_lower ''setups'' = ''setups''" "str_title ''setups'' = ''Setups''"
  by code_simp+

lemma display_title_example: "display_title ''my-first_post'' = ''My First Post''"
  by code_simp

lemma sorted_files_sorted: "sorted_files w slug = Inr fs \<Longrightarrow> sorted fs"
  by (auto simp: sorted_files_def split: option.splits)

text \<open>
  Claim C7. When the four section directories can be listed, the navigation block is the
  marker line and the line \<open>nav:\<close>, followed by the entries of \<open>blog\<close>, \<open>guides\<close>,
  \<open>resources\<close> and \<open>setups\<close> in this order. The entries of a section are its header
  line with the title-cased name, the line of its index path, and one leaf line per file
  that \<open>sorted_files\<close> returns, in that (sorted) order; a leaf pairs the display title
  of the stem with the path made of the section slug and the stem. The display title of
  \<open>my-first_post\<close> is \<open>My First Post\<close>. The statement is made for files whose stems
  are ASCII text, where the title-casing of the model is that of \<open>str.title\<close>.
\<close>

theorem nav_lines_block:
  assumes "sorted_files w ''blog'' = Inr fb" and "sorted_files w ''guides'' = Inr fg"
    and "sorted_files w ''resources'' = Inr fr" and "sorted_files w ''setups'' = Inr fs"
    and "\<forall>f \<in> set (fb @ fg @ fr @ fs). str_isascii (stem f)"
  shows "nav_lines w =
           Inr ([''# NAV'', ''nav:'']
                @ [''  - Blog:'', ''    - blog/index.md''] @ map (nav_leaf ''blog'') fb
                @ [''  - Guides:'', ''    - guides/index.md''] @ map (nav_leaf ''guides'') fg
                @ [''  - Resources:'', ''    - resources/index.md'']
                @ map (nav_leaf ''resources'') fr
                @ [''  - Setups:'', ''    - setups/index.md''] @ map (nav_leaf ''setups'') fs)
         \<and> sorted fb \<and> sorted fg \<and> sorted fr \<and> sorted fs
         \<and> nav_leaf ''blog'' ''my-first_post.md'' = ''    - '' @ [SQUOTE] @ ''My First Post''
               @ [SQUOTE] @ '': blog/my-first_post''"
proof -
  have b: "section_nav w ''blog''
             = Inr ([''  - Blog:'', ''    - blog/index.md''] @ map (nav_leaf ''blog'') fb)"
    using section_nav_lines [of w "''blog''" fb] assms(1) by (simp add: case_names)
  have g: "section_nav w ''guides''
             = Inr ([''  - Guides:'', ''    - guides/index.md''] @ map (nav_leaf ''guides'') fg)"
    using section_nav_lines [of w "''guides''" fg] assms(2) by (simp add: case_names)
  have r: "section_nav w ''resources''
             = Inr ([''  - Resources:'', ''    - resources/index.md'']
                    @ map (nav_leaf ''resources'') fr)"
    using section_nav_lines [of w "''resources''" fr] assms(3) by (simp add: case_names)
  have s: "section_nav w ''setups''
             = Inr ([''  - Setups:'', ''    - setups/index.md''] @ map (nav_leaf ''setups'') fs)"
    using section_nav_lines [of w "''setups''" fs] assms(4) by (simp add: case_names)
  have block: "nav_lines w =
           Inr ([''# NAV'', ''nav:'']
                @ [''  - Blog:'', ''    - blog/index.md''] @ map (nav_leaf ''blog'') fb
                @ [''  - Guides:'', ''    - guides/index.md''] @ map (nav_leaf ''guides'') fg
                @ [''  - Resources:'', ''    - resources/index.md'']
                @ map (nav_leaf ''resources'') fr
                @ [''  - Setups:'', ''    - setups/index.md''] @ map (nav_leaf ''setups'') fs)"
    by (simp add: nav_lines_def NAV_KEY_def b g r s)
  have st: "stem ''my-first_post.md'' = ''my-first_post''"
    by (simp add: stem_def)
  have leaf: "nav_leaf ''blog'' ''my-first_post.md'' = ''    - '' @ [SQUOTE] @ ''My First Post''
               @ [SQUOTE] @ '': blog/my-first_post''"
    by (simp add: nav_leaf_def st display_title_example)
  have ord: "sorted fb" "sorted fg" "sorted fr" "sorted fs"
    using assms(1-4) by (simp_all add: sorted_files_sorted)
  from block leaf ord show ?thesis by simp
qed

lemma nav_world_files:
  "sorted_files nav_world ''blog'' = Inr [''a.md'', ''my-first_post.md'']"
  "sorted_files nav_world ''guides'' = Inr []"
  "sorted_files nav_world ''resources'' = Inr []"
  "sorted_files nav_world ''setups'' = Inr [''vim.md'']"
  by (simp_all add: sorted_files_def nav_world_def stem_def less_eq_char_def)

lemma nav_leaf_examples:
  "nav_leaf ''blog'' ''a.md'' = ''    - '' @ [SQUOTE] @ ''A'' @ [SQUOTE] @ '': blog/a''"
  "nav_leaf ''setups'' ''vim.md'' = ''    - '' @ [SQUOTE] @ ''Vim'' @ [SQUOTE] @ '': setups/vim''"
  by code_simp+

theorem nav_lines_block_witness:
  "nav_lines nav_world =
     Inr [''# NAV'', ''nav:'',
          ''  - Blog:'', ''    - blog/index.md'',
          ''    - '' @ [SQUOTE] @ ''A'' @ [SQUOTE] @ '': blog/a'',
          ''    - '' @ [SQUOTE] @ ''My First Post'' @ [SQUOTE] @ '': blog/my-first_post'',
          ''  - Guides:'', ''    - guides/index.md'',
          ''  - Resources:'', ''    - resources/index.md'',
          ''  - Setups:'', ''    - setups/index.md'',
          ''    - '' @ [SQUOTE] @ ''Vim'' @ [SQUOTE] @ '': setups/vim'']"
proof -
  have ascii: "\<forall>f \<in> set ([''a.md'', ''my-first_post.md''] @ [] @ [] @ [''vim.md'']).
                 str_isascii (stem f)"
    by (simp add: str_isascii_def stem_def)
  from nav_lines_block [OF nav_world_files ascii]
  show ?thesis by (simp add: nav_leaf_examples)
qed

section \<open>Splicing the navigation block\<close>

lemma find_from_absent: "\<not> contains sub s \<Longrightarrow> find_from k sub s = - 1"
  by (induction s arbitrary: k) auto

lemma find_absent: "\<not> contains sub s \<Longrightarrow> find s sub = - 1"
  by (simp add: find_def find_from_absent)

lemma slice_to_minus_one: "slice_to s (- 1) = butlast s"
proof -
  have "nat (int (length s) + - 1) = length s - 1" by simp
  then show ?thesis by (simp add: slice_to_def butlast_conv_take)
qed

lemma gen_nav_run:
  assumes "nav_lines w = Inr nl" and "contents w ''mkdocs.yml'' = Some raw"
  shows "gen_nav w =
           (None, write_text (write_text w ''.bak.mkdocs.yml'' (universal_newlines raw))
                    ''mkdocs.yml''
                    (slice_to (universal_newlines raw) (find (universal_newlines raw) NAV_KEY)
                     @ join [LF] nl))"
  using assms by (simp add: gen_nav_def read_text_def Let_def)

text \<open>
  Claim C1, as amended. When the marker \<open># NAV\<close> does not occur in the text of
  \<open>mkdocs.yml\<close>, \<open>find\<close> returns \<open>-1\<close>, and the slice up to \<open>-1\<close> is the text without
  its last character. The script then writes the backup and rewrites the document as the
  original text without its last character, followed by the navigation block.
\<close>

theorem gen_nav_without_marker:
  assumes "nav_lines w = Inr nl" and "contents w ''mkdocs.yml'' = Some raw"
    and "original = universal_newlines raw"
    and "\<forall>a b. original \<noteq> a @ ''# NAV'' @ b"
  shows "find original NAV_KEY = - 1
         \<and> gen_nav w =
             (None, write_text (write_text w ''.bak.mkdocs.yml'' original) ''mkdocs.yml''
                      (butlast original @ join [LF] nl))"
proof -
  have "\<not> contains NAV_KEY original"
    using assms(4) by (simp add: contains_iff NAV_KEY_def)
  then have f: "find original NAV_KEY = - 1" by (rule find_absent)
  have "gen_nav w =
          (None, write_text (write_text w ''.bak.mkdocs.yml'' original) ''mkdocs.yml''
                   (slice_to original (find original NAV_KEY) @ join [LF] nl))"
    using gen_nav_run [OF assms(1,2)] by (simp add: assms(3))
  then show ?thesis by (simp add: f slice_to_minus_one)
qed

lemma nav_lines_nav_world: "nav_lines nav_world = Inr nav_world_block"
proof -
  have b: "section_nav nav_world ''blog''
             = Inr ([''  - Blog:'', ''    - blog/index.md'']
                    @ map (nav_leaf ''blog'') [''a.md'', ''my-first_post.md''])"
    using section_nav_lines [of nav_world "''blog''"] nav_world_files(1)
    by (simp add: case_names)
  have g: "section_nav nav_world ''guides'' = Inr [''  - Guides:'', ''    - guides/index.md'']"
    using section_nav_lines [of nav_world "''guides''"] nav_world_files(2)
    by (simp add: case_names)
  have r: "section_nav nav_world ''resources''
             = Inr [''  - Resources:'', ''    - resources/index.md'']"
    using section_nav_lines [of nav_world "''resources''"] nav_world_files(3)
    by (simp add: case_names)
  have s: "section_nav nav_world ''setups''
             = Inr ([''  - Setups:'', ''    - setups/index.md'']
                    @ map (nav_leaf ''setups'') [''vim.md''])"
    using section_nav_lines [of nav_world "''setups''"] nav_world_files(4)
    by (simp add: case_names)
  have m: "nav_leaf ''blog'' ''my-first_post.md'' = ''    - '' @ [SQUOTE] @ ''My First Post''
               @ [SQUOTE] @ '': blog/my-first_post''"
    by code_simp
  show ?thesis
    by (simp add: nav_lines_def NAV_KEY_def b g r s nav_leaf_examples m nav_world_block_def)
qed

lemma nav_world_document:
  "contents nav_world ''mkdocs.yml'' = Some ''site_name: demo''"
  "universal_newlines ''site_name: demo'' = ''site_name: demo''"
  "\<not> contains ''# NAV'' ''site_name: demo''"
  by (simp_all add: nav_world_def CR_def)

text \<open>
  The claim as stated fails on a document without the marker: the rewritten document
  keeps the original text but for its last character in front of the block.
\<close>

theorem gen_nav_without_marker_counterexample:
  "\<not> contains NAV_KEY ''site_name: demo''
   \<and> nav_lines nav_world = Inr nav_world_block
   \<and> contents (snd (gen_nav nav_world)) ''mkdocs.yml''
       = Some (''site_name: dem'' @ join [LF] nav_world_block)
   \<and> contents (snd (gen_nav nav_world)) ''mkdocs.yml'' \<noteq> Some (join [LF] nav_world_block)"
proof -
  have absent: "\<not> contains NAV_KEY ''site_name: demo''"
    unfolding NAV_KEY_def by (rule nav_world_document(3))
  then have f: "find ''site_name: demo'' NAV_KEY = - 1"
    by (rule find_absent)
  have cut: "slice_to ''site_name: demo'' (- 1) = ''site_name: dem''"
    by (simp only: slice_to_minus_one) simp
  have "gen_nav nav_world =
          (None, write_text (write_text nav_world ''.bak.mkdocs.yml'' ''site_name: demo'')
                   ''mkdocs.yml''
                   (slice_to ''site_name: demo'' (find ''site_name: demo'' NAV_KEY)
                    @ join [LF] nav_world_block))"
    using gen_nav_run [OF nav_lines_nav_world nav_world_document(1)]
    by (simp only: nav_world_document(2))
  then have run: "gen_nav nav_world =
          (None, write_text (write_text nav_world ''.bak.mkdocs.yml'' ''site_name: demo'')
                   ''mkdocs.yml'' (''site_name: dem'' @ join [LF] nav_world_block))"
    by (simp only: f cut)
  have c: "contents (snd (gen_nav nav_world)) ''mkdocs.yml''
                  = Some (''site_name: dem'' @ join [LF] nav_world_block)"
    unfolding run by (simp only: snd_conv contents_write_text)
  have "''site_name: dem'' \<noteq> []" by simp
  then have d: "''site_name: dem'' @ join [LF] nav_world_block \<noteq> join [LF] nav_world_block"
    by (simp only: append_self_conv2 not_False_eq_True)
  from c d have e: "contents (snd (gen_nav nav_world)) ''mkdocs.yml''
                      \<noteq> Some (join [LF] nav_world_block)"
    by (simp only: option.inject not_False_eq_True)
  from absent nav_lines_nav_world c e show ?thesis by (intro conjI)
qed

theorem gen_nav_without_marker_witness:
  "find ''site_name: demo'' NAV_KEY = - 1
   \<and> gen_nav nav_world =
       (None, write_text (write_text nav_world ''.bak.mkdocs.yml'' ''site_name: demo'')
                ''mkdocs.yml'' (''site_name: dem'' @ join [LF] nav_world_block))"
proof -
  have h3: "''site_name: demo'' = universal_newlines ''site_name: demo''"
    by (rule nav_world_document(2) [symmetric])
  have h4: "\<forall>a b. ''site_name: demo'' \<noteq> a @ ''# NAV'' @ b"
    using nav_world_document(3) contains_iff by blast
  from gen_nav_without_marker [OF nav_lines_nav_world nav_world_document(1) h3 h4]
  show ?thesis by simp
qed


end
